theory Spec2Isabelle
  imports Main "HOL-Library.Word"
begin

section \<open>PDF image extraction backend (backend/main.py)\<close>

text \<open>
  The backend has two functions with decision logic: \<open>extract_images_from_pdf\<close>, which
  walks the pages of a document, and the endpoint \<open>extract_images\<close>, which wraps it in a
  temporary file and maps its outcome to an HTTP response. Both call PyMuPDF (\<open>fitz\<close>) and
  Pillow (\<open>PIL\<close>), and the endpoint writes the upload through a buffered file object of
  Python's \<open>io\<close> module. These libraries are not part of the repository: what they return
  for a given argument is a parameter of the model (the record \<open>library\<close> and the fields of
  \<open>pdf_document\<close>), and every call that can raise returns a sum whose left side is the
  text of the exception.
\<close>

subsection \<open>Data\<close>

type_synonym exn = string
type_synonym xref = int
type_synonym bytes = "8 word list"
type_synonym path = nat

text \<open>The dictionary returned by \<open>pdf_document.extract_image(xref)\<close>; the code reads its
  keys \<open>"image"\<close> and \<open>"ext"\<close>.\<close>

record base_image =
  image_bytes :: bytes
  image_ext :: string

text \<open>
  An opened document. \<open>doc_pages\<close> has one entry per page index: what
  \<open>pdf_document[page_num].get_images(full=True)\<close> gives there, either an exception or the
  image list. Each entry of an image list is a tuple of which the code reads item 0 only, the
  xref, so the entry is modelled by its xref. \<open>doc_extract_image\<close> is
  \<open>pdf_document.extract_image\<close> followed by the two key look-ups.
\<close>

record pdf_document =
  doc_pages :: "(exn + xref list) list"
  doc_extract_image :: "xref \<Rightarrow> exn + base_image"

text \<open>A Pillow image: its mode, its size and one list of band values per pixel, row by row.\<close>

record pil_image =
  mode :: string
  width :: nat
  height :: nat
  pixels :: "nat list list"

text \<open>
  The calls whose result cannot be written down here: parsing a PDF, decoding image bytes
  (\<open>Image.open\<close>, together with the pixel load that Pillow defers to the first use; a
  failure at either point raises inside the same \<open>try\<close>), the pixel data of
  \<open>Image.convert\<close>, and the encoder behind \<open>Image.save\<close>, which receives the format name,
  the quality and the method. \<open>buffer_size\<close> is the size of the write buffer of the file
  object that \<open>tempfile.NamedTemporaryFile\<close> returns; Python takes it from the block size of
  the file system (4096 bytes on a common Linux system).
\<close>

record library =
  fitz_open :: "bytes \<Rightarrow> exn + pdf_document"
  Image_open :: "bytes \<Rightarrow> exn + pil_image"
  convert_data :: "pil_image \<Rightarrow> string \<Rightarrow> exn + nat list list"
  save_data :: "pil_image \<Rightarrow> string \<Rightarrow> nat \<Rightarrow> nat \<Rightarrow> exn + bytes"
  buffer_size :: nat

text \<open>One entry of the list the pipeline returns.\<close>

record extracted_image =
  pageNumber :: int
  imageIndex :: int
  url :: string

text \<open>The three local variables that the loops of \<open>extract_images_from_pdf\<close> update.\<close>

record loop_state =
  images :: "extracted_image list"
  image_index :: int
  seen_xrefs :: "xref set"

subsection \<open>Pillow's in-memory operations\<close>

text \<open>
  \<open>Image.new(mode, size, color)\<close> fills an image with one colour. \<open>Image.split()\<close> gives
  one single-band image per band of the mode. \<open>Image.paste(im, mask=m)\<close> without a box
  blends \<open>im\<close> into the destination pixel by pixel: where the mask is 255 the source is
  copied, where it is 0 the destination is kept, and in between Pillow mixes the two with
  its integer division by 255. The destination keeps its mode; of an RGBA source pasted
  into an RGB destination the first three bands are used.
\<close>

definition Image_new :: "string \<Rightarrow> nat \<times> nat \<Rightarrow> nat list \<Rightarrow> pil_image" where
  "Image_new m sz color =
     \<lparr>mode = m, width = fst sz, height = snd sz, pixels = replicate (fst sz * snd sz) color\<rparr>"

definition band_count :: "string \<Rightarrow> nat" where
  "band_count m =
     (if m \<in> {''RGBA'', ''CMYK'', ''RGBX'', ''RGBa''} then 4
      else if m \<in> {''RGB'', ''YCbCr'', ''LAB'', ''HSV''} then 3
      else if m \<in> {''LA'', ''PA'', ''La''} then 2
      else 1)"

definition pil_split :: "pil_image \<Rightarrow> pil_image list" where
  "pil_split im =
     map (\<lambda>k. \<lparr>mode = ''L'', width = width im, height = height im,
               pixels = map (\<lambda>p. [p ! k]) (pixels im)\<rparr>)
         [0..<band_count (mode im)]"

definition DIV255 :: "nat \<Rightarrow> nat" where
  "DIV255 a = (let tmp = a + 128 in ((tmp div 256) + tmp) div 256)"

definition BLEND :: "nat \<Rightarrow> nat \<Rightarrow> nat \<Rightarrow> nat" where
  "BLEND msk in1 in2 = DIV255 (in1 * (255 - msk) + in2 * msk)"

definition paste_pixel :: "nat list \<Rightarrow> nat list \<Rightarrow> nat list \<Rightarrow> nat list" where
  "paste_pixel out inp m = map (\<lambda>k. BLEND (hd m) (out ! k) (inp ! k)) [0..<length out]"

definition paste :: "pil_image \<Rightarrow> pil_image \<Rightarrow> pil_image \<Rightarrow> pil_image" where
  "paste dst im msk =
     dst\<lparr>pixels := map (\<lambda>(out, inp, m). paste_pixel out inp m)
                        (zip (pixels dst) (zip (pixels im) (pixels msk)))\<rparr>"

text \<open>\<open>Image.convert(m)\<close> returns an image of mode \<open>m\<close> and of the same size, or raises.\<close>

definition convert :: "library \<Rightarrow> pil_image \<Rightarrow> string \<Rightarrow> exn + pil_image" where
  "convert lib im m =
     (case convert_data lib im m of
        Inl e \<Rightarrow> Inl e
      | Inr px \<Rightarrow> Inr (im\<lparr>mode := m, pixels := px\<rparr>))"

subsection \<open>Base64 (\<open>base64.b64encode\<close>, RFC 4648)\<close>

definition b64_alphabet :: string where
  "b64_alphabet = ''ABCDEFGHIJKLMNOPQRSTUVWXYZabcdefghijklmnopqrstuvwxyz0123456789+/''"

definition b64_char :: "nat \<Rightarrow> char" where
  "b64_char i = b64_alphabet ! i"

text \<open>
  Three bytes give four characters of six bits each; a last group of one or two bytes is
  padded with \<open>=\<close>.
\<close>

fun b64encode :: "bytes \<Rightarrow> string" where
  "b64encode [] = []"
| "b64encode [a] =
     [b64_char (unat a div 4), b64_char (unat a mod 4 * 16), CHR ''='', CHR ''='']"
| "b64encode [a, b] =
     [b64_char (unat a div 4), b64_char (unat a mod 4 * 16 + unat b div 16),
      b64_char (unat b mod 16 * 4), CHR ''='']"
| "b64encode (a # b # c # rest) =
     [b64_char (unat a div 4), b64_char (unat a mod 4 * 16 + unat b div 16),
      b64_char (unat b mod 16 * 4 + unat c div 64), b64_char (unat c mod 64)]
     @ b64encode rest"

text \<open>The inverse, \<open>base64.b64decode\<close>, on well-formed input; \<open>None\<close> otherwise.\<close>

definition b64_index :: "char \<Rightarrow> nat option" where
  "b64_index c =
     (let n = (of_char c :: nat)
      in if 65 \<le> n \<and> n \<le> 90 then Some (n - 65)
         else if 97 \<le> n \<and> n \<le> 122 then Some (n - 71)
         else if 48 \<le> n \<and> n \<le> 57 then Some (n + 4)
         else if c = CHR ''+'' then Some 62
         else if c = CHR ''/'' then Some 63
         else None)"

fun b64decode :: "string \<Rightarrow> bytes option" where
  "b64decode [] = Some []"
| "b64decode (c0 # c1 # c2 # c3 # rest) =
     (case (b64_index c0, b64_index c1) of
        (Some i0, Some i1) \<Rightarrow>
          if c2 = CHR ''='' \<and> c3 = CHR ''='' \<and> rest = []
          then Some [of_nat (i0 * 4 + i1 div 16)]
          else
            (case b64_index c2 of
               None \<Rightarrow> None
             | Some i2 \<Rightarrow>
                 if c3 = CHR ''='' \<and> rest = []
                 then Some [of_nat (i0 * 4 + i1 div 16), of_nat (i1 mod 16 * 16 + i2 div 4)]
                 else
                   (case b64_index c3 of
                      None \<Rightarrow> None
                    | Some i3 \<Rightarrow>
                        (case b64decode rest of
                           None \<Rightarrow> None
                         | Some bs \<Rightarrow>
                             Some (of_nat (i0 * 4 + i1 div 16)
                                   # of_nat (i1 mod 16 * 16 + i2 div 4)
                                   # of_nat (i2 mod 4 * 64 + i3) # bs))))
      | _ \<Rightarrow> None)"
| "b64decode _ = None"

subsection \<open>The body of the inner loop\<close>

text \<open>
  Lines 83 to 91: the colour normalisation. Only the mode \<open>"RGBA"\<close> is composited onto a
  white image, with its fourth band as the mask; \<open>"P"\<close> and every mode other than
  \<open>"RGB"\<close> and \<open>"L"\<close> go through \<open>convert("RGB")\<close>.
\<close>

definition normalize :: "library \<Rightarrow> pil_image \<Rightarrow> exn + pil_image" where
  "normalize lib img_pil =
     (if mode img_pil = ''RGBA'' then
        (let rgb_img = Image_new ''RGB'' (width img_pil, height img_pil) [255, 255, 255]
         in Inr (paste rgb_img img_pil (pil_split img_pil ! 3)))
      else if mode img_pil = ''P'' then convert lib img_pil ''RGB''
      else if mode img_pil \<notin> {''RGB'', ''L''} then convert lib img_pil ''RGB''
      else Inr img_pil)"

text \<open>
  Lines 67 to 100, from \<open>extract_image\<close> to the data URL. The three ways out of this part
  of the \<open>try\<close> block: a \<open>continue\<close>, an exception (caught at line 108, which prints a
  warning and continues), or the data URL.
\<close>

datatype outcome = Skipped | Failed exn | Encoded string

definition encode_image :: "library \<Rightarrow> pdf_document \<Rightarrow> xref \<Rightarrow> outcome" where
  "encode_image lib pdf_document xref =
     (case doc_extract_image pdf_document xref of
        Inl e \<Rightarrow> Failed e
      | Inr base_image \<Rightarrow>
          if length (image_bytes base_image) < 100 then Skipped
          else
            (case Image_open lib (image_bytes base_image) of
               Inl e \<Rightarrow> Failed e
             | Inr img_pil \<Rightarrow>
                 if width img_pil < 10 \<or> height img_pil < 10 then Skipped
                 else
                   (case normalize lib img_pil of
                      Inl e \<Rightarrow> Failed e
                    | Inr img_pil' \<Rightarrow>
                        (case save_data lib img_pil' ''WEBP'' 85 6 of
                           Inl e \<Rightarrow> Failed e
                         | Inr webp \<Rightarrow>
                             Encoded (''data:image/webp;base64,'' @ b64encode webp)))))"

text \<open>
  Lines 56 to 111, one iteration of \<open>for img_index, img_info in enumerate(image_list)\<close>.
  The xref enters \<open>seen_xrefs\<close> before anything is extracted, so it stays there whatever
  the outcome. The warning printed at line 110 goes to standard output and is not part of
  the state.
\<close>

definition image_step ::
    "library \<Rightarrow> pdf_document \<Rightarrow> nat \<Rightarrow> loop_state \<Rightarrow> xref \<Rightarrow> loop_state" where
  "image_step lib pdf_document page_num st xref =
     (if xref \<in> seen_xrefs st then st
      else
        (let st1 = st\<lparr>seen_xrefs := insert xref (seen_xrefs st)\<rparr>
         in case encode_image lib pdf_document xref of
              Skipped \<Rightarrow> st1
            | Failed e \<Rightarrow> st1
            | Encoded data_url \<Rightarrow>
                st1\<lparr>image_index := image_index st1 + 1,
                    images := images st1 @
                      [\<lparr>pageNumber = int page_num + 1,
                        imageIndex = image_index st1 + 1,
                        url = data_url\<rparr>]\<rparr>))"

subsection \<open>The two loops\<close>

fun images_loop ::
    "library \<Rightarrow> pdf_document \<Rightarrow> nat \<Rightarrow> loop_state \<Rightarrow> xref list \<Rightarrow> loop_state" where
  "images_loop lib pdf_document page_num st [] = st"
| "images_loop lib pdf_document page_num st (img_info # rest) =
     images_loop lib pdf_document page_num
       (image_step lib pdf_document page_num st img_info) rest"

text \<open>
  \<open>for page_num in range(len(pdf_document))\<close>: the pages still to visit, the first of them
  being page \<open>page_num\<close>. An exception raised by a page leaves the loop at once.
\<close>

fun pages_loop ::
    "library \<Rightarrow> pdf_document \<Rightarrow> nat \<Rightarrow> loop_state \<Rightarrow> (exn + xref list) list
       \<Rightarrow> exn + loop_state" where
  "pages_loop lib pdf_document page_num st [] = Inr st"
| "pages_loop lib pdf_document page_num st (page # rest) =
     (case page of
        Inl e \<Rightarrow> Inl e
      | Inr image_list \<Rightarrow>
          if image_list = [] then pages_loop lib pdf_document (Suc page_num) st rest
          else pages_loop lib pdf_document (Suc page_num)
                 (images_loop lib pdf_document page_num st image_list) rest)"

definition initial_state :: loop_state where
  "initial_state = \<lparr>images = [], image_index = 0, seen_xrefs = {}\<rparr>"

definition walk :: "library \<Rightarrow> pdf_document \<Rightarrow> exn + loop_state" where
  "walk lib pdf_document = pages_loop lib pdf_document 0 initial_state (doc_pages pdf_document)"

subsection \<open>The surrounding state: temporary files and document handles\<close>

text \<open>
  What a request can change outside its own variables: the files of the temporary
  directory, the supply of fresh temporary names, and the number of \<open>Document\<close> handles
  that \<open>fitz.open\<close> has returned and on which \<open>close()\<close> has not been called. A file is
  named by a number, and \<open>files\<close> gives what a reader of that name finds on disk.
\<close>

record world =
  files :: "path \<rightharpoonup> bytes"
  next_tmp :: path
  open_documents :: nat

definition open_path :: "library \<Rightarrow> world \<Rightarrow> path \<Rightarrow> exn + pdf_document" where
  "open_path lib w pdf_path =
     (case files w pdf_path of
        None \<Rightarrow> Inl ''no such file''
      | Some data \<Rightarrow> fitz_open lib data)"

subsection \<open>\<open>extract_images_from_pdf\<close>\<close>

definition no_images_message :: string where
  "no_images_message =
     ''No embedded images found in this PDF. The PDF may only contain text or vector graphics.''"

text \<open>
  Lines 35 to 121. \<open>pdf_document.close()\<close> is the last statement inside the outer \<open>try\<close>,
  so it runs only when the loop over the pages has finished; the handler at line 115
  re-raises with a prefix and closes nothing.
\<close>

definition extract_images_from_pdf ::
    "library \<Rightarrow> world \<Rightarrow> path \<Rightarrow> world \<times> (exn + extracted_image list)" where
  "extract_images_from_pdf lib w pdf_path =
     (case open_path lib w pdf_path of
        Inl e \<Rightarrow> (w, Inl (''Error processing PDF: '' @ e))
      | Inr pdf_document \<Rightarrow>
          (let w1 = w\<lparr>open_documents := open_documents w + 1\<rparr>
           in case walk lib pdf_document of
                Inl e \<Rightarrow> (w1, Inl (''Error processing PDF: '' @ e))
              | Inr st \<Rightarrow>
                  (let w2 = w1\<lparr>open_documents := open_documents w1 - 1\<rparr>
                   in if images st = [] then (w2, Inl no_images_message)
                      else (w2, Inr (images st)))))"

subsection \<open>The endpoint \<open>POST /api/extract-images\<close>\<close>

text \<open>Python's \<open>s in t\<close> on strings.\<close>

fun str_in :: "string \<Rightarrow> string \<Rightarrow> bool" where
  "str_in s [] = (s = [])"
| "str_in s (c # cs) = (take (length s) (c # cs) = s \<or> str_in s cs)"

text \<open>The upload: its declared content type and what \<open>await file.read()\<close> gives.\<close>

record upload_file =
  content_type :: "string option"
  file_read :: "exn + bytes"

text \<open>
  What leaves the endpoint: the JSON body of a success (\<open>images\<close> and \<open>totalImages\<close>), an
  \<open>HTTPException\<close> with its status code and detail, or the \<open>UnboundLocalError\<close> that the
  \<open>finally\<close> block raises when it reads \<open>tmp_file_path\<close> before line 140 has bound it.
\<close>

datatype response =
    JSONResponse "extracted_image list" int
  | HTTPException nat string
  | UnboundLocalError

text \<open>
  Lines 125 to 158. \<open>tmp_file.write(content)\<close> at line 139 goes through the buffer of the
  file object, and nothing flushes or closes the file before \<open>fitz.open\<close> reads its path at
  line 41. A buffered writer whose buffer is empty keeps content that fits the buffer in
  memory and writes longer content through in one piece. So when the path is opened the
  file on disk is still empty if the content is no longer than the buffer, and holds the
  whole content otherwise. The buffer is written out when the \<open>with\<close> block is left, after
  the \<open>finally\<close> block has removed the path.
\<close>

definition extract_images :: "library \<Rightarrow> world \<Rightarrow> upload_file \<Rightarrow> world \<times> response" where
  "extract_images lib w file =
     (if (case content_type file of None \<Rightarrow> True
          | Some ct \<Rightarrow> ct = [] \<or> ct \<noteq> ''application/pdf'')
      then (w, HTTPException 400 ''File must be a PDF'')
      else
        (let tmp_file = next_tmp w;
             w1 = w\<lparr>files := (files w)(tmp_file \<mapsto> []), next_tmp := Suc (next_tmp w)\<rparr>
         in case file_read file of
              Inl e \<Rightarrow> (w1, UnboundLocalError)
            | Inr content \<Rightarrow>
                (let on_disk = (if length content \<le> buffer_size lib then [] else content);
                     w2 = w1\<lparr>files := (files w1)(tmp_file \<mapsto> on_disk)\<rparr>;
                     tmp_file_path = tmp_file;
                     (w3, r) = extract_images_from_pdf lib w2 tmp_file_path;
                     resp = (case r of
                               Inr imgs \<Rightarrow> JSONResponse imgs (int (length imgs))
                             | Inl error_message \<Rightarrow>
                                 HTTPException
                                   (if str_in ''No embedded images found'' error_message
                                    then 400 else 500)
                                   error_message);
                     w4 = (if files w3 tmp_file_path \<noteq> None
                           then w3\<lparr>files := (files w3)(tmp_file_path := None)\<rparr>
                           else w3)
                 in (w4, resp))))"

subsection \<open>Which image reference a record comes from\<close>

text \<open>
  A record does not store the xref it was made from. The following functions follow the
  two loops and list, in order, the page index and the xref of every iteration that
  appended a record.
\<close>

definition appended :: "loop_state \<Rightarrow> loop_state \<Rightarrow> bool" where
  "appended st st' = (length (images st) < length (images st'))"

fun images_sources ::
    "library \<Rightarrow> pdf_document \<Rightarrow> nat \<Rightarrow> loop_state \<Rightarrow> xref list \<Rightarrow> (nat \<times> xref) list" where
  "images_sources lib pdf_document page_num st [] = []"
| "images_sources lib pdf_document page_num st (img_info # rest) =
     (let st' = image_step lib pdf_document page_num st img_info
      in (if appended st st' then [(page_num, img_info)] else [])
         @ images_sources lib pdf_document page_num st' rest)"

fun pages_sources ::
    "library \<Rightarrow> pdf_document \<Rightarrow> nat \<Rightarrow> loop_state \<Rightarrow> (exn + xref list) list
       \<Rightarrow> (nat \<times> xref) list" where
  "pages_sources lib pdf_document page_num st [] = []"
| "pages_sources lib pdf_document page_num st (page # rest) =
     (case page of
        Inl e \<Rightarrow> []
      | Inr image_list \<Rightarrow>
          images_sources lib pdf_document page_num st image_list
          @ pages_sources lib pdf_document (Suc page_num)
              (images_loop lib pdf_document page_num st image_list) rest)"

definition sources :: "library \<Rightarrow> pdf_document \<Rightarrow> (nat \<times> xref) list" where
  "sources lib pdf_document =
     pages_sources lib pdf_document 0 initial_state (doc_pages pdf_document)"

text \<open>The xrefs a page lists; a page that raises lists none.\<close>

definition page_xrefs :: "exn + xref list \<Rightarrow> xref set" where
  "page_xrefs page = (case page of Inl e \<Rightarrow> {} | Inr image_list \<Rightarrow> set image_list)"

text \<open>
  The list of records that a list of such origins stands for, when the counter is \<open>i\<close>
  before the first of them: the record of origin \<open>(p, x)\<close> has page number \<open>p + 1\<close>, the
  next value of the counter, and the data URL of \<open>x\<close>.
\<close>

definition url_of :: "library \<Rightarrow> pdf_document \<Rightarrow> xref \<Rightarrow> string" where
  "url_of lib pdf_document x =
     (case encode_image lib pdf_document x of Encoded u \<Rightarrow> u | _ \<Rightarrow> [])"

fun records_from ::
    "library \<Rightarrow> pdf_document \<Rightarrow> int \<Rightarrow> (nat \<times> xref) list \<Rightarrow> extracted_image list" where
  "records_from lib pdf_document i [] = []"
| "records_from lib pdf_document i ((p, x) # rest) =
     \<lparr>pageNumber = int p + 1, imageIndex = i + 1, url = url_of lib pdf_document x\<rparr>
     # records_from lib pdf_document (i + 1) rest"

subsection \<open>Vocabulary of the specification for the colour normalisation\<close>

text \<open>Pillow's modes that carry an alpha band.\<close>

definition has_alpha :: "string \<Rightarrow> bool" where
  "has_alpha m = (m \<in> {''RGBA'', ''LA'', ''PA'', ''RGBa'', ''La''})"


text \<open>
  The specification's wording of the first normalisation rule, for an image whose bands
  are a colour followed by alpha (\<open>RGBA\<close>, or \<open>LA\<close> where the grey value stands for three
  equal components): every pixel's colour is blended over white, weighted by the pixel's
  alpha, and the result is an RGB image of the same size.
\<close>

definition spec_flatten_pixel :: "nat list \<Rightarrow> nat list" where
  "spec_flatten_pixel p =
     (let alpha = last p;
          colour = (if length p = 2 then [hd p, hd p, hd p] else butlast p)
      in map (\<lambda>v. BLEND alpha 255 v) colour)"



subsection \<open>Concrete inputs\<close>

text \<open>
  A small library and three documents on which the functions above can be run. The
  encoder returns four bytes that record the size, the quality and the method it was
  called with, and data of four bytes decodes to an RGB image of the recorded size; other
  data decodes to an image chosen by its first byte. A grey image, with or without alpha,
  converts to RGB by repeating its grey value, which is what Pillow does with the modes
  \<open>L\<close> and \<open>LA\<close>. The write buffer has 4096 bytes.
\<close>

definition photo :: pil_image where
  "photo = \<lparr>mode = ''RGB'', width = 10, height = 10, pixels = replicate 100 [10, 20, 30]\<rparr>"

definition icon :: pil_image where
  "icon = \<lparr>mode = ''RGB'', width = 5, height = 5, pixels = replicate 25 [0, 0, 0]\<rparr>"

definition scan :: pil_image where
  "scan = \<lparr>mode = ''L'', width = 12, height = 10, pixels = replicate 120 [7]\<rparr>"

definition la_image :: pil_image where
  "la_image = \<lparr>mode = ''LA'', width = 10, height = 10, pixels = replicate 100 [0, 0]\<rparr>"

definition rgba_image :: pil_image where
  "rgba_image =
     \<lparr>mode = ''RGBA'', width = 10, height = 10, pixels = replicate 100 [200, 100, 0, 128]\<rparr>"

definition demo_extract_image :: "xref \<Rightarrow> exn + base_image" where
  "demo_extract_image xref =
     (if xref = 5 then Inr \<lparr>image_bytes = replicate 100 1, image_ext = ''jpeg''\<rparr>
      else if xref = 7 then Inr \<lparr>image_bytes = replicate 50 1, image_ext = ''png''\<rparr>
      else if xref = 9 then Inr \<lparr>image_bytes = replicate 100 2, image_ext = ''png''\<rparr>
      else if xref = 11 then Inr \<lparr>image_bytes = replicate 120 4, image_ext = ''png''\<rparr>
      else if xref = 13 then Inr \<lparr>image_bytes = replicate 100 8, image_ext = ''jpx''\<rparr>
      else Inl ''not an image'')"

text \<open>Three pages; xref 5 and xref 7 are each listed on the first two.\<close>

definition demo_doc :: pdf_document where
  "demo_doc = \<lparr>doc_pages = [Inr [5, 7], Inr [7, 5, 9, 11], Inr []],
               doc_extract_image = demo_extract_image\<rparr>"

text \<open>A document that opens, and whose second page cannot be loaded.\<close>

definition broken_doc :: pdf_document where
  "broken_doc = \<lparr>doc_pages = [Inr [5], Inl ''cannot load page''],
                 doc_extract_image = demo_extract_image\<rparr>"

text \<open>A document whose only images are below the size and dimension floors.\<close>

definition text_doc :: pdf_document where
  "text_doc = \<lparr>doc_pages = [Inr [], Inr [7, 9]], doc_extract_image = demo_extract_image\<rparr>"

definition demo_library :: library where
  "demo_library =
     \<lparr>fitz_open = (\<lambda>data.
        if data = [] then Inl ''cannot open empty document''
        else if hd data = 1 then Inr demo_doc
        else if hd data = 2 then Inr broken_doc
        else if hd data = 3 then Inr text_doc
        else Inl ''cannot open broken document''),
      Image_open = (\<lambda>data.
        if data = [] then Inl ''cannot identify image file''
        else if length data = 4
        then Inr \<lparr>mode = ''RGB'', width = unat (data ! 0), height = unat (data ! 1),
                  pixels = replicate (unat (data ! 0) * unat (data ! 1)) [0, 0, 0]\<rparr>
        else if hd data = 1 then Inr photo
        else if hd data = 2 then Inr icon
        else if hd data = 4 then Inr scan
        else if hd data = 6 then Inr la_image
        else if hd data = 8 then Inr rgba_image
        else Inl ''cannot identify image file''),
      convert_data = (\<lambda>im m.
        if mode im \<in> {''L'', ''LA''} \<and> m = ''RGB''
        then Inr (map (\<lambda>p. [hd p, hd p, hd p]) (pixels im))
        else Inl ''conversion not supported''),
      save_data = (\<lambda>im fmt quality method.
        if fmt = ''WEBP''
        then Inr [of_nat (width im), of_nat (height im), of_nat quality, of_nat method]
        else Inl ''unknown file extension''),
      buffer_size = 4096\<rparr>"

definition demo_world :: world where
  "demo_world = \<lparr>files = Map.empty, next_tmp = 0, open_documents = 0\<rparr>"

text \<open>An upload of four bytes declared as a PDF, whose first byte selects the document.\<close>

definition demo_upload :: "8 word \<Rightarrow> upload_file" where
  "demo_upload tag =
     \<lparr>content_type = Some ''application/pdf'', file_read = Inr [tag, 80, 68, 70]\<rparr>"

text \<open>The same for an upload of 4097 bytes, one byte more than the write buffer holds.\<close>

definition large_upload :: "8 word \<Rightarrow> upload_file" where
  "large_upload tag =
     \<lparr>content_type = Some ''application/pdf'', file_read = Inr (tag # replicate 4096 0)\<rparr>"

definition text_upload :: upload_file where
  "text_upload = \<lparr>content_type = Some ''text/plain'', file_read = Inr [104, 105]\<rparr>"

text \<open>A world whose file 0 holds on disk the four bytes of \<open>demo_upload tag\<close>.\<close>

definition stored_world :: "8 word \<Rightarrow> world" where
  "stored_world tag =
     \<lparr>files = [0 \<mapsto> [tag, 80, 68, 70]], next_tmp = 1, open_documents = 0\<rparr>"

text \<open>What the pipeline returns for \<open>demo_doc\<close>.\<close>

definition demo_records :: "extracted_image list" where
  "demo_records =
     [\<lparr>pageNumber = 1, imageIndex = 1, url = ''data:image/webp;base64,CgpVBg==''\<rparr>,
      \<lparr>pageNumber = 2, imageIndex = 2, url = ''data:image/webp;base64,DApVBg==''\<rparr>]"

section \<open>Properties of the loop body\<close>

lemma image_step_seen: "seen_xrefs (image_step lib doc p st x) = insert x (seen_xrefs st)"
  by (cases "encode_image lib doc x"; cases "x \<in> seen_xrefs st")
     (auto simp: image_step_def Let_def)

lemma image_step_in_seen: "x \<in> seen_xrefs st \<Longrightarrow> image_step lib doc p st x = st"
  by (simp add: image_step_def)

lemma appended_iff:
  "appended st (image_step lib doc p st x) \<longleftrightarrow>
     x \<notin> seen_xrefs st \<and> (\<exists>u. encode_image lib doc x = Encoded u)"
  by (cases "encode_image lib doc x"; cases "x \<in> seen_xrefs st")
     (simp_all add: appended_def image_step_def Let_def)

lemma image_step_not_appended:
  "\<not> appended st (image_step lib doc p st x) \<Longrightarrow>
     images (image_step lib doc p st x) = images st \<and>
     image_index (image_step lib doc p st x) = image_index st"
  by (cases "encode_image lib doc x"; cases "x \<in> seen_xrefs st")
     (simp_all add: appended_def image_step_def Let_def)

lemma image_step_appended:
  "appended st (image_step lib doc p st x) \<Longrightarrow>
     \<exists>u. encode_image lib doc x = Encoded u \<and>
       images (image_step lib doc p st x) =
         images st @ [\<lparr>pageNumber = int p + 1, imageIndex = image_index st + 1, url = u\<rparr>] \<and>
       image_index (image_step lib doc p st x) = image_index st + 1"
  by (cases "encode_image lib doc x"; cases "x \<in> seen_xrefs st")
     (simp_all add: appended_def image_step_def Let_def)

lemma records_from_append:
  "records_from lib doc i (xs @ ys) =
     records_from lib doc i xs @ records_from lib doc (i + int (length xs)) ys"
  by (induction xs arbitrary: i) (auto simp: algebra_simps)

lemma images_loop_char:
  "images (images_loop lib doc p st xs) =
     images st @ records_from lib doc (image_index st) (images_sources lib doc p st xs) \<and>
   image_index (images_loop lib doc p st xs) =
     image_index st + int (length (images_sources lib doc p st xs)) \<and>
   seen_xrefs (images_loop lib doc p st xs) = seen_xrefs st \<union> set xs"
proof (induction xs arbitrary: st)
  case Nil
  then show ?case by simp
next
  case (Cons x xs)
  let ?st' = "image_step lib doc p st x"
  show ?case
  proof (cases "appended st ?st'")
    case True
    from image_step_appended[OF True] obtain u where
      u: "encode_image lib doc x = Encoded u"
      "images ?st' = images st @ [\<lparr>pageNumber = int p + 1, imageIndex = image_index st + 1, url = u\<rparr>]"
      "image_index ?st' = image_index st + 1" by blast
    then show ?thesis using True Cons.IH[of ?st']
      by (simp add: image_step_seen url_of_def Let_def)
  next
    case False
    from image_step_not_appended[OF False] show ?thesis using False Cons.IH[of ?st']
      by (simp add: image_step_seen Let_def)
  qed
qed

lemma pages_loop_char:
  "pages_loop lib doc p st ps = Inr st' \<Longrightarrow>
   images st' = images st @ records_from lib doc (image_index st) (pages_sources lib doc p st ps) \<and>
   image_index st' = image_index st + int (length (pages_sources lib doc p st ps)) \<and>
   seen_xrefs st' = seen_xrefs st \<union> \<Union> (page_xrefs ` set ps)"
proof (induction ps arbitrary: st p)
  case Nil
  then show ?case by simp
next
  case (Cons pg ps)
  show ?case
  proof (cases pg)
    case (Inl e)
    with Cons.prems show ?thesis by simp
  next
    case (Inr l)
    let ?st1 = "images_loop lib doc p st l"
    from Cons.prems Inr have run: "pages_loop lib doc (Suc p) ?st1 ps = Inr st'"
      by (cases "l = []") simp_all
    note ih = Cons.IH[OF run]
    note c = images_loop_char[of lib doc p st l]
    show ?thesis using ih c Inr
      by (simp add: records_from_append page_xrefs_def Un_assoc)
  qed
qed


lemma images_sources_mem:
  "(q, x) \<in> set (images_sources lib doc p st xs) \<Longrightarrow>
     q = p \<and> x \<in> set xs \<and> x \<notin> seen_xrefs st \<and> (\<exists>u. encode_image lib doc x = Encoded u)"
proof (induction xs arbitrary: st)
  case Nil
  then show ?case by simp
next
  case (Cons y ys)
  let ?st' = "image_step lib doc p st y"
  from Cons.prems consider
      (hd) "appended st ?st'" "(q, x) = (p, y)"
    | (tl) "(q, x) \<in> set (images_sources lib doc p ?st' ys)"
    by (auto simp: Let_def split: if_splits)
  then show ?case
  proof cases
    case hd
    then show ?thesis using appended_iff[of st lib doc p y] by simp
  next
    case tl
    from Cons.IH[OF tl] show ?thesis by (simp add: image_step_seen)
  qed
qed



lemma pages_sources_mem:
  "(q, x) \<in> set (pages_sources lib doc p st ps) \<Longrightarrow>
     p \<le> q \<and> q < p + length ps \<and> x \<in> page_xrefs (ps ! (q - p)) \<and>
     (\<forall>j < q - p. x \<notin> page_xrefs (ps ! j)) \<and> x \<notin> seen_xrefs st \<and>
     (\<exists>u. encode_image lib doc x = Encoded u)"
proof (induction ps arbitrary: st p)
  case Nil
  then show ?case by simp
next
  case (Cons pg ps)
  show ?case
  proof (cases pg)
    case (Inl e)
    with Cons.prems show ?thesis by simp
  next
    case (Inr l)
    let ?st1 = "images_loop lib doc p st l"
    from Cons.prems Inr consider
        (here) "(q, x) \<in> set (images_sources lib doc p st l)"
      | (later) "(q, x) \<in> set (pages_sources lib doc (Suc p) ?st1 ps)"
      by auto
    then show ?thesis
    proof cases
      case here
      from images_sources_mem[OF here] show ?thesis using Inr
        by (simp add: page_xrefs_def)
    next
      case later
      from Cons.IH[OF later] have ih:
        "Suc p \<le> q" "q < Suc p + length ps" "x \<in> page_xrefs (ps ! (q - Suc p))"
        "\<forall>j < q - Suc p. x \<notin> page_xrefs (ps ! j)" "x \<notin> seen_xrefs ?st1"
        "\<exists>u. encode_image lib doc x = Encoded u" by blast+
      from ih(5) have notin: "x \<notin> seen_xrefs st" "x \<notin> set l"
        using images_loop_char[of lib doc p st l] by auto
      have "q - p = Suc (q - Suc p)" using ih(1) by simp
      then have nth: "(pg # ps) ! (q - p) = ps ! (q - Suc p)" by simp
      have first: "\<forall>j < q - p. x \<notin> page_xrefs ((pg # ps) ! j)"
      proof (intro allI impI)
        fix j assume j: "j < q - p"
        show "x \<notin> page_xrefs ((pg # ps) ! j)"
        proof (cases j)
          case 0
          then show ?thesis using notin Inr by (simp add: page_xrefs_def)
        next
          case (Suc k)
          with j have "k < q - Suc p" by simp
          with ih(4) Suc show ?thesis by simp
        qed
      qed
      show ?thesis using ih(1,2,3,6) notin(1) nth first by simp
    qed
  qed
qed


lemma pages_sources_sorted: "sorted (map fst (pages_sources lib doc p st ps))"
proof (induction ps arbitrary: st p)
  case Nil
  then show ?case by simp
next
  case (Cons pg ps)
  show ?case
  proof (cases pg)
    case (Inl e)
    then show ?thesis by simp
  next
    case (Inr l)
    let ?st1 = "images_loop lib doc p st l"
    have a: "\<forall>a \<in> set (images_sources lib doc p st l). fst a = p"
      using images_sources_mem[of _ _ lib doc p st l] by auto
    have b: "\<forall>b \<in> set (pages_sources lib doc (Suc p) ?st1 ps). p \<le> fst b"
      using pages_sources_mem[of _ _ lib doc "Suc p" ?st1 ps] by fastforce
    have s1: "sorted (map fst (images_sources lib doc p st l))"
      using a by (induction "images_sources lib doc p st l") (auto simp: sorted_wrt_iff_nth_less)
    show ?thesis using Inr Cons.IH[of "Suc p" ?st1] a b s1
      by (auto simp: sorted_append)
  qed
qed


section \<open>Base64\<close>

lemma b64_index_table: "map b64_index b64_alphabet = map Some [0..<64]"
  by (simp add: b64_alphabet_def b64_index_def upt_rec)

lemma b64_index_char: "i < 64 \<Longrightarrow> b64_index (b64_char i) = Some i"
proof -
  assume i: "i < 64"
  then have "i < length b64_alphabet" by (simp add: b64_alphabet_def)
  then have "b64_index (b64_alphabet ! i) = map b64_index b64_alphabet ! i"
    by simp
  also have "\<dots> = Some i" using i by (simp add: b64_index_table del: upt.simps)
  finally show ?thesis by (simp add: b64_char_def)
qed

lemma b64_char_not_pad: "i < 64 \<Longrightarrow> b64_char i \<noteq> CHR ''=''"
proof
  assume "i < 64" "b64_char i = CHR ''=''"
  then have "b64_index CHR ''='' = Some i" using b64_index_char[of i] by simp
  then show False by (simp add: b64_index_def)
qed

lemma unat8_less: "unat (w :: 8 word) < 256"
  using unsigned_less[of w, where 'a = nat] by simp



lemma sextet_hi: "x < k \<Longrightarrow> (r * k + x) div k = (r::nat)"
  by simp

lemma sextet_lo: "x < k \<Longrightarrow> (r * k + x) mod k = (x::nat)"
  by simp

lemma sextet_bound: "r < m \<Longrightarrow> x < k \<Longrightarrow> r * k + x < m * (k::nat)"
proof -
  assume r: "r < m" and x: "x < k"
  then have "r * k + x < r * k + k" by simp
  also have "\<dots> = Suc r * k" by simp
  also have "\<dots> \<le> m * k" using r by (intro mult_le_mono1) simp
  finally show ?thesis .
qed

lemma b64_sextets:
  fixes a b c :: "8 word"
  shows "unat a div 4 < 64"
    and "unat a mod 4 * 16 < 64"
    and "unat a mod 4 * 16 + unat b div 16 < 64"
    and "unat b mod 16 * 4 < 64"
    and "unat b mod 16 * 4 + unat c div 64 < 64"
    and "unat c mod 64 < 64"
proof -
  have b16: "unat b div 16 < 16" and c64: "unat c div 64 < 4"
    using unat8_less[of b] unat8_less[of c] by simp_all
  show "unat a div 4 < 64" using unat8_less[of a] by simp
  show "unat a mod 4 * 16 < 64" using sextet_bound[of "unat a mod 4" 4 0 16] by simp
  show "unat a mod 4 * 16 + unat b div 16 < 64"
    using sextet_bound[of "unat a mod 4" 4 "unat b div 16" 16] b16 by simp
  show "unat b mod 16 * 4 < 64" using sextet_bound[of "unat b mod 16" 16 0 4] by simp
  show "unat b mod 16 * 4 + unat c div 64 < 64"
    using sextet_bound[of "unat b mod 16" 16 "unat c div 64" 4] c64 by simp
  show "unat c mod 64 < 64" by simp
qed

lemma b64_octets:
  fixes a b c :: "8 word"
  shows "of_nat (unat a div 4 * 4 + (unat a mod 4 * 16) div 16) = a"
    and "of_nat (unat a div 4 * 4 + (unat a mod 4 * 16 + unat b div 16) div 16) = a"
    and "of_nat ((unat a mod 4 * 16 + unat b div 16) mod 16 * 16 + (unat b mod 16 * 4) div 4) = b"
    and "of_nat ((unat a mod 4 * 16 + unat b div 16) mod 16 * 16
                  + (unat b mod 16 * 4 + unat c div 64) div 4) = b"
    and "of_nat ((unat b mod 16 * 4 + unat c div 64) mod 4 * 64 + unat c mod 64) = c"
proof -
  have b16: "unat b div 16 < 16" and c64: "unat c div 64 < 4"
    using unat8_less[of b] unat8_less[of c] by simp_all
  have "unat a div 4 * 4 + (unat a mod 4 * 16) div 16 = unat a" by simp
  then show "of_nat (unat a div 4 * 4 + (unat a mod 4 * 16) div 16) = a"
    by (simp only: of_nat_unat) simp
  have "unat a div 4 * 4 + (unat a mod 4 * 16 + unat b div 16) div 16 = unat a"
    by (simp only: sextet_hi[OF b16] div_mult_mod_eq)
  then show "of_nat (unat a div 4 * 4 + (unat a mod 4 * 16 + unat b div 16) div 16) = a"
    by (simp only: of_nat_unat) simp
  have "(unat a mod 4 * 16 + unat b div 16) mod 16 * 16 + (unat b mod 16 * 4) div 4 = unat b"
    by (simp only: sextet_lo[OF b16] nonzero_mult_div_cancel_right div_mult_mod_eq)
  then show "of_nat ((unat a mod 4 * 16 + unat b div 16) mod 16 * 16 + (unat b mod 16 * 4) div 4) = b"
    by (simp only: of_nat_unat) simp
  have "(unat a mod 4 * 16 + unat b div 16) mod 16 * 16
          + (unat b mod 16 * 4 + unat c div 64) div 4 = unat b"
    by (simp only: sextet_lo[OF b16] sextet_hi[OF c64] div_mult_mod_eq)
  then show "of_nat ((unat a mod 4 * 16 + unat b div 16) mod 16 * 16
                  + (unat b mod 16 * 4 + unat c div 64) div 4) = b"
    by (simp only: of_nat_unat) simp
  have "(unat b mod 16 * 4 + unat c div 64) mod 4 * 64 + unat c mod 64 = unat c"
    by (simp only: sextet_lo[OF c64] div_mult_mod_eq)
  then show "of_nat ((unat b mod 16 * 4 + unat c div 64) mod 4 * 64 + unat c mod 64) = c"
    by (simp only: of_nat_unat) simp
qed

lemma b64_roundtrip: "b64decode (b64encode bs) = Some bs"
proof (induction bs rule: b64encode.induct)
  case 1
  show ?case by simp
next
  case (2 a)
  define i0 where "i0 = unat a div 4"
  define i1 where "i1 = unat a mod 4 * 16"
  have lt: "i0 < 64" "i1 < 64" and octs: "of_nat (i0 * 4 + i1 div 16) = a"
    unfolding i0_def i1_def by (rule b64_sextets b64_octets)+
  have "b64encode [a] = [b64_char i0, b64_char i1, CHR ''='', CHR ''='']"
    by (simp add: i0_def i1_def)
  then show ?case using lt octs
    by (simp add: b64_index_char b64_char_not_pad del: of_nat_add of_nat_mult)
next
  case (3 a b)
  define i0 where "i0 = unat a div 4"
  define i1 where "i1 = unat a mod 4 * 16 + unat b div 16"
  define i2 where "i2 = unat b mod 16 * 4"
  have lt: "i0 < 64" "i1 < 64" "i2 < 64"
    and octs: "of_nat (i0 * 4 + i1 div 16) = a" "of_nat (i1 mod 16 * 16 + i2 div 4) = b"
    unfolding i0_def i1_def i2_def by (rule b64_sextets b64_octets)+
  have "b64encode [a, b] = [b64_char i0, b64_char i1, b64_char i2, CHR ''='']"
    by (simp add: i0_def i1_def i2_def)
  then show ?case using lt octs
    by (simp add: b64_index_char b64_char_not_pad del: of_nat_add of_nat_mult)
next
  case (4 a b c rest)
  define i0 where "i0 = unat a div 4"
  define i1 where "i1 = unat a mod 4 * 16 + unat b div 16"
  define i2 where "i2 = unat b mod 16 * 4 + unat c div 64"
  define i3 where "i3 = unat c mod 64"
  have lt: "i0 < 64" "i1 < 64" "i2 < 64" "i3 < 64"
    and octs: "of_nat (i0 * 4 + i1 div 16) = a" "of_nat (i1 mod 16 * 16 + i2 div 4) = b"
      "of_nat (i2 mod 4 * 64 + i3) = c"
    unfolding i0_def i1_def i2_def i3_def by (rule b64_sextets b64_octets)+
  have "b64encode (a # b # c # rest) =
          b64_char i0 # b64_char i1 # b64_char i2 # b64_char i3 # b64encode rest"
    by (simp add: i0_def i1_def i2_def i3_def)
  then show ?case using lt octs 4
    by (simp add: b64_index_char b64_char_not_pad del: of_nat_add of_nat_mult)
qed

section \<open>From the loops to the results of the two functions\<close>

lemma records_from_length: "length (records_from lib doc i srcs) = length srcs"
  by (induction srcs arbitrary: i) auto

lemma records_from_pageNumber:
  "map pageNumber (records_from lib doc i srcs) = map (\<lambda>s. int (fst s) + 1) srcs"
  by (induction srcs arbitrary: i) auto

lemma records_from_imageIndex:
  "map imageIndex (records_from lib doc i srcs) = [i + 1..i + int (length srcs)]"
proof (induction srcs arbitrary: i)
  case Nil
  then show ?case by simp
next
  case (Cons s srcs)
  obtain p x where s: "s = (p, x)" by (cases s)
  have "[i + 1..i + int (length (s # srcs))] = (i + 1) # [i + 1 + 1..i + 1 + int (length srcs)]"
    by (subst upto_rec1) (simp_all add: algebra_simps)
  with Cons.IH[of "i + 1"] s show ?case by simp
qed

lemma records_from_nth:
  "k < length srcs \<Longrightarrow>
     records_from lib doc i srcs ! k =
       \<lparr>pageNumber = int (fst (srcs ! k)) + 1, imageIndex = i + int k + 1,
        url = url_of lib doc (snd (srcs ! k))\<rparr>"
proof (induction srcs arbitrary: i k)
  case Nil
  then show ?case by simp
next
  case (Cons s srcs)
  obtain p x where s: "s = (p, x)" by (cases s)
  show ?case
  proof (cases k)
    case 0
    with s show ?thesis by simp
  next
    case (Suc j)
    with Cons.prems have "j < length srcs" by simp
    from Cons.IH[OF this, of "i + 1"] Suc s show ?thesis by simp
  qed
qed

lemma walk_images:
  "walk lib doc = Inr st \<Longrightarrow> images st = records_from lib doc 0 (sources lib doc)"
  using pages_loop_char[of lib doc 0 initial_state "doc_pages doc" st]
  by (simp add: walk_def sources_def initial_state_def)

lemma sources_mem:
  "(p, x) \<in> set (sources lib doc) \<Longrightarrow>
     p < length (doc_pages doc) \<and> x \<in> page_xrefs (doc_pages doc ! p) \<and>
     (\<forall>j < p. x \<notin> page_xrefs (doc_pages doc ! j)) \<and>
     (\<exists>u. encode_image lib doc x = Encoded u)"
  using pages_sources_mem[of p x lib doc 0 initial_state "doc_pages doc"]
  by (simp add: sources_def)


lemma count_distinct:
  "distinct (map f xs) \<Longrightarrow>
     length (filter (\<lambda>s. f s = x) xs) = (if x \<in> f ` set xs then 1 else 0)"
  by (induction xs) auto

lemma extract_images_from_pdf_success:
  "snd (extract_images_from_pdf lib w pdf_path) = Inr imgs \<Longrightarrow>
     \<exists>doc st. open_path lib w pdf_path = Inr doc \<and> walk lib doc = Inr st \<and>
       images st = imgs \<and> imgs \<noteq> []"
  by (auto simp: extract_images_from_pdf_def Let_def split: sum.splits if_splits)

lemma extract_images_from_pdf_walk:
  "open_path lib w pdf_path = Inr doc \<Longrightarrow>
   snd (extract_images_from_pdf lib w pdf_path) = Inr imgs \<Longrightarrow>
     \<exists>st. walk lib doc = Inr st \<and> images st = imgs"
  using extract_images_from_pdf_success[of lib w pdf_path imgs] by auto

lemma extract_images_from_pdf_files:
  "files (fst (extract_images_from_pdf lib w pdf_path)) = files w"
  by (auto simp: extract_images_from_pdf_def Let_def split: sum.splits)

lemma encode_image_Encoded:
  "encode_image lib doc x = Encoded u \<Longrightarrow>
     \<exists>b img img' webp.
       doc_extract_image doc x = Inr b \<and> 100 \<le> length (image_bytes b) \<and>
       Image_open lib (image_bytes b) = Inr img \<and> 10 \<le> width img \<and> 10 \<le> height img \<and>
       normalize lib img = Inr img' \<and> save_data lib img' ''WEBP'' 85 6 = Inr webp \<and>
       u = ''data:image/webp;base64,'' @ b64encode webp"
  by (auto simp: encode_image_def split: sum.splits if_splits)

lemma str_in_prefix: "str_in s (s @ t)"
proof (cases "s @ t")
  case Nil
  then show ?thesis by simp
next
  case (Cons c cs)
  have "take (length s) (s @ t) = s" by simp
  with Cons show ?thesis by simp
qed

section \<open>The colour normalisation\<close>

lemma DIV255_exact: "v < 256 \<Longrightarrow> DIV255 (v * 255) = v"
proof -
  assume v: "v < 256"
  show ?thesis
  proof (cases "v \<le> 128")
    case True
    have "v * 255 + 128 = v * 256 + (128 - v)" using True by simp
    moreover have "128 - v < 256" by simp
    ultimately have "(v * 255 + 128) div 256 = v" using sextet_hi[of "128 - v" 256 v] by simp
    moreover have "(v + (v * 255 + 128)) div 256 = v"
    proof -
      have "v + (v * 255 + 128) = v * 256 + 128" by simp
      then show ?thesis using sextet_hi[of 128 256 v] by simp
    qed
    ultimately show ?thesis by (simp add: DIV255_def Let_def)
  next
    case False
    have "v * 255 + 128 = (v - 1) * 256 + (384 - v)" using False v by (simp add: algebra_simps)
    moreover have "384 - v < 256" using False by simp
    ultimately have "(v * 255 + 128) div 256 = v - 1"
      using sextet_hi[of "384 - v" 256 "v - 1"] by simp
    moreover have "(v - 1 + (v * 255 + 128)) div 256 = v"
    proof -
      have "v - 1 + (v * 255 + 128) = v * 256 + 127" using False by simp
      then show ?thesis using sextet_hi[of 127 256 v] by simp
    qed
    ultimately show ?thesis by (simp add: DIV255_def Let_def)
  qed
qed

lemma BLEND_opaque: "v < 256 \<Longrightarrow> BLEND 255 d v = v"
  by (simp add: BLEND_def DIV255_exact)

lemma BLEND_transparent: "d < 256 \<Longrightarrow> BLEND 0 d v = d"
  by (simp add: BLEND_def DIV255_exact)



text \<open>Where alpha is 255 the colour of the pixel is kept; where it is 0 the pixel
  becomes white.\<close>

lemma spec_flatten_pixel_opaque:
  "r < 256 \<Longrightarrow> g < 256 \<Longrightarrow> b < 256 \<Longrightarrow> spec_flatten_pixel [r, g, b, 255] = [r, g, b]"
  by (simp add: spec_flatten_pixel_def BLEND_opaque)

lemma spec_flatten_pixel_transparent: "spec_flatten_pixel [r, g, b, 0] = [255, 255, 255]"
  by (simp add: spec_flatten_pixel_def BLEND_transparent)




lemma normalize_mode:
  "normalize lib im = Inr out \<Longrightarrow> mode out = ''RGB'' \<or> mode out = ''L''"
  by (auto simp: normalize_def convert_def paste_def Image_new_def Let_def
      split: if_splits sum.splits)

lemma normalize_size:
  "normalize lib im = Inr out \<Longrightarrow> width out = width im \<and> height out = height im"
  by (auto simp: normalize_def convert_def paste_def Image_new_def Let_def
      split: if_splits sum.splits)

section \<open>Running the concrete inputs\<close>

lemma image_step_dup: "x \<in> seen_xrefs st \<Longrightarrow> image_step lib doc p st x = st"
  by (simp add: image_step_def)

lemma image_step_skip:
  "x \<notin> seen_xrefs st \<Longrightarrow> \<forall>u. encode_image lib doc x \<noteq> Encoded u \<Longrightarrow>
     image_step lib doc p st x = st\<lparr>seen_xrefs := insert x (seen_xrefs st)\<rparr>"
  by (cases "encode_image lib doc x") (simp_all add: image_step_def)

lemma image_step_accept:
  "x \<notin> seen_xrefs st \<Longrightarrow> encode_image lib doc x = Encoded u \<Longrightarrow>
     image_step lib doc p st x =
       \<lparr>images = images st @
          [\<lparr>pageNumber = int p + 1, imageIndex = image_index st + 1, url = u\<rparr>],
        image_index = image_index st + 1,
        seen_xrefs = insert x (seen_xrefs st)\<rparr>"
  by (simp add: image_step_def)

lemma demo_encode_5:
  "doc_extract_image doc = demo_extract_image \<Longrightarrow>
     encode_image demo_library doc 5 = Encoded ''data:image/webp;base64,CgpVBg==''"
  by (simp add: encode_image_def demo_extract_image_def demo_library_def photo_def
      normalize_def b64_char_def b64_alphabet_def)

lemma demo_encode_7:
  "doc_extract_image doc = demo_extract_image \<Longrightarrow> encode_image demo_library doc 7 = Skipped"
  by (simp add: encode_image_def demo_extract_image_def)

lemma demo_encode_9:
  "doc_extract_image doc = demo_extract_image \<Longrightarrow> encode_image demo_library doc 9 = Skipped"
  by (simp add: encode_image_def demo_extract_image_def demo_library_def icon_def)

lemma demo_encode_11:
  "doc_extract_image doc = demo_extract_image \<Longrightarrow>
     encode_image demo_library doc 11 = Encoded ''data:image/webp;base64,DApVBg==''"
  by (simp add: encode_image_def demo_extract_image_def demo_library_def scan_def
      normalize_def b64_char_def b64_alphabet_def)

lemmas demo_encode = demo_encode_5 demo_encode_7 demo_encode_9 demo_encode_11

lemma demo_doc_fields:
  "doc_pages demo_doc = [Inr [5, 7], Inr [7, 5, 9, 11], Inr []]"
  "doc_extract_image demo_doc = demo_extract_image"
  by (simp_all add: demo_doc_def)

lemma text_doc_fields:
  "doc_pages text_doc = [Inr [], Inr [7, 9]]"
  "doc_extract_image text_doc = demo_extract_image"
  by (simp_all add: text_doc_def)

lemma broken_doc_fields:
  "doc_pages broken_doc = [Inr [5], Inl ''cannot load page'']"
  "doc_extract_image broken_doc = demo_extract_image"
  by (simp_all add: broken_doc_def)

lemmas demo_run = walk_def sources_def initial_state_def appended_def
  image_step_dup image_step_skip image_step_accept demo_encode

lemma walk_demo_doc:
  "walk demo_library demo_doc =
     Inr \<lparr>images = demo_records, image_index = 2, seen_xrefs = {11, 9, 7, 5}\<rparr>"
  by (simp add: demo_run demo_doc_fields demo_records_def)


lemma walk_text_doc:
  "walk demo_library text_doc = Inr \<lparr>images = [], image_index = 0, seen_xrefs = {9, 7}\<rparr>"
  by (simp add: demo_run text_doc_fields)

lemma walk_broken_doc: "walk demo_library broken_doc = Inl ''cannot load page''"
  by (simp add: demo_run broken_doc_fields)

lemma open_stored:
  "open_path demo_library (stored_world 1) 0 = Inr demo_doc"
  "open_path demo_library (stored_world 2) 0 = Inr broken_doc"
  "open_path demo_library (stored_world 3) 0 = Inr text_doc"
  by (simp_all add: open_path_def stored_world_def demo_library_def)

lemma extract_demo_doc:
  "snd (extract_images_from_pdf demo_library (stored_world 1) 0) = Inr demo_records"
  by (simp add: extract_images_from_pdf_def open_stored walk_demo_doc demo_records_def)

lemma fitz_open_demo:
  "fitz_open demo_library [1, 80, 68, 70] = Inr demo_doc"
  "fitz_open demo_library [2, 80, 68, 70] = Inr broken_doc"
  "fitz_open demo_library [3, 80, 68, 70] = Inr text_doc"
  by (simp_all add: demo_library_def)

lemma demo_buffer: "buffer_size demo_library = 4096"
  by (simp add: demo_library_def)

lemma fitz_open_empty: "fitz_open demo_library [] = Inl ''cannot open empty document''"
  by (simp add: demo_library_def)

lemma fitz_open_large:
  "fitz_open demo_library (1 # replicate 4096 0) = Inr demo_doc"
  "fitz_open demo_library (2 # replicate 4096 0) = Inr broken_doc"
  "fitz_open demo_library (3 # replicate 4096 0) = Inr text_doc"
  by (simp_all add: demo_library_def)

lemma extract_stored_broken:
  "snd (extract_images_from_pdf demo_library (stored_world 2) 0) =
     Inl ''Error processing PDF: cannot load page''"
  "open_documents (fst (extract_images_from_pdf demo_library (stored_world 2) 0)) = 1"
proof -
  have "open_documents (stored_world 2) = 0" by (simp add: stored_world_def)
  then show "snd (extract_images_from_pdf demo_library (stored_world 2) 0) =
      Inl ''Error processing PDF: cannot load page''"
    and "open_documents (fst (extract_images_from_pdf demo_library (stored_world 2) 0)) = 1"
    by (simp_all add: extract_images_from_pdf_def open_stored walk_broken_doc)
qed

lemma extract_stored_text:
  "snd (extract_images_from_pdf demo_library (stored_world 3) 0) = Inl no_images_message"
  by (simp add: extract_images_from_pdf_def open_stored walk_text_doc)

lemma extract_images_large_broken:
  "extract_images demo_library demo_world (large_upload 2) =
     (\<lparr>files = Map.empty, next_tmp = 1, open_documents = 1\<rparr>,
      HTTPException 500 ''Error processing PDF: cannot load page'')"
  by (simp add: extract_images_def large_upload_def demo_world_def extract_images_from_pdf_def
      open_path_def fitz_open_large walk_broken_doc demo_buffer)

lemma extract_images_large_demo:
  "extract_images demo_library demo_world (large_upload 1) =
     (\<lparr>files = Map.empty, next_tmp = 1, open_documents = 0\<rparr>, JSONResponse demo_records 2)"
  by (simp add: extract_images_def large_upload_def demo_world_def extract_images_from_pdf_def
      open_path_def fitz_open_large walk_demo_doc demo_records_def demo_buffer)

lemma extract_images_small_text:
  "extract_images demo_library demo_world (demo_upload 3) =
     (\<lparr>files = Map.empty, next_tmp = 1, open_documents = 0\<rparr>,
      HTTPException 500 ''Error processing PDF: cannot open empty document'')"
  by (simp add: extract_images_def demo_upload_def demo_world_def extract_images_from_pdf_def
      open_path_def fitz_open_empty demo_buffer)

section \<open>The claims\<close>



lemma sources_sorted: "sorted (map fst (sources lib doc))"
  by (simp add: sources_def pages_sources_sorted)




text \<open>
  What holds of C2 on the code. A walk that ends with no record makes
  \<open>extract_images_from_pdf\<close> raise the fixed message, and the pipeline never returns an
  empty list. The endpoint answers 400 with that message when the upload is longer than
  the write buffer. An upload that fits the buffer is still in memory when the path is
  opened: if \<open>fitz.open\<close> refuses the empty file, the answer carries the prefix of line 116
  and is never the fixed message.
\<close>

lemma empty_walk_raises:
  assumes "open_path lib w pdf_path = Inr doc"
    and "walk lib doc = Inr st"
    and "images st = []"
  shows "snd (extract_images_from_pdf lib w pdf_path) = Inl no_images_message"
  using assms by (simp add: extract_images_from_pdf_def)

lemma never_empty_success: "snd (extract_images_from_pdf lib w pdf_path) \<noteq> Inr []"
  using extract_images_from_pdf_success[of lib w pdf_path "[]"] by blast

lemma no_images_message_found: "str_in ''No embedded images found'' no_images_message"
  using str_in_prefix[of "''No embedded images found''"
      "'' in this PDF. The PDF may only contain text or vector graphics.''"]
  by (simp add: no_images_message_def)

lemma empty_result_above_buffer:
  assumes "content_type file = Some ''application/pdf''"
    and "file_read file = Inr content"
    and "buffer_size lib < length content"
    and "fitz_open lib content = Inr doc"
    and "walk lib doc = Inr st"
    and "images st = []"
  shows "snd (extract_images lib w file) = HTTPException 400 no_images_message"
proof -
  have "snd (extract_images_from_pdf lib v q) = Inl no_images_message"
    if "files v q = Some content" for v q
    using that assms(4-6) by (simp add: extract_images_from_pdf_def open_path_def)
  then show ?thesis using assms(1-3) no_images_message_found
    by (simp add: extract_images_def Let_def split_beta)
qed

lemma upload_in_buffer_is_not_parsed:
  assumes "content_type file = Some ''application/pdf''"
    and "file_read file = Inr content"
    and "length content \<le> buffer_size lib"
    and "fitz_open lib [] = Inl e"
  shows "\<exists>status. snd (extract_images lib w file) =
           HTTPException status (''Error processing PDF: '' @ e)"
    and "snd (extract_images lib w file) \<noteq> HTTPException 400 no_images_message"
proof -
  have "snd (extract_images_from_pdf lib v q) = Inl (''Error processing PDF: '' @ e)"
    if "files v q = Some []" for v q
    using that assms(4) by (simp add: extract_images_from_pdf_def open_path_def)
  then have r: "snd (extract_images lib w file) =
      HTTPException
        (if str_in ''No embedded images found'' (''Error processing PDF: '' @ e)
         then 400 else 500)
        (''Error processing PDF: '' @ e)"
    using assms(1-3) by (simp add: extract_images_def Let_def split_beta)
  then show "\<exists>status. snd (extract_images lib w file) =
      HTTPException status (''Error processing PDF: '' @ e)" by blast
  from r show "snd (extract_images lib w file) \<noteq> HTTPException 400 no_images_message"
    by (simp add: no_images_message_def)
qed

text \<open>
  C2 fails on the code. \<open>demo_upload 3\<close> is a PDF of four bytes whose document,
  \<open>text_doc\<close>, lists no image that passes the floors: read from disk, it makes the pipeline
  raise the fixed message. Sent to the endpoint, it fits the write buffer, \<open>fitz.open\<close>
  finds an empty file, and the answer is 500 with another detail.
\<close>

theorem small_text_only_upload_is_answered_500:
  "content_type (demo_upload 3) = Some ''application/pdf'' \<and>
   file_read (demo_upload 3) = Inr [3, 80, 68, 70] \<and>
   fitz_open demo_library [3, 80, 68, 70] = Inr text_doc \<and>
   walk demo_library text_doc = Inr \<lparr>images = [], image_index = 0, seen_xrefs = {9, 7}\<rparr> \<and>
   snd (extract_images_from_pdf demo_library (stored_world 3) 0) =
     Inl ''No embedded images found in this PDF. The PDF may only contain text or vector graphics.'' \<and>
   buffer_size demo_library = 4096 \<and>
   fitz_open demo_library [] = Inl ''cannot open empty document'' \<and>
   snd (extract_images demo_library demo_world (demo_upload 3)) =
     HTTPException 500 ''Error processing PDF: cannot open empty document''"
proof -
  have "content_type (demo_upload 3) = Some ''application/pdf''"
    and "file_read (demo_upload 3) = Inr [3, 80, 68, 70]"
    by (simp_all add: demo_upload_def)
  moreover have "snd (extract_images_from_pdf demo_library (stored_world 3) 0) =
      Inl ''No embedded images found in this PDF. The PDF may only contain text or vector graphics.''"
    using extract_stored_text by (simp add: no_images_message_def)
  moreover have "snd (extract_images demo_library demo_world (demo_upload 3)) =
      HTTPException 500 ''Error processing PDF: cannot open empty document''"
    by (simp add: extract_images_small_text)
  ultimately show ?thesis
    using fitz_open_demo(3) walk_text_doc demo_buffer fitz_open_empty by blast
qed

text \<open>
  C3. Every record of a returned list comes from an image whose raw data has at least
  100 bytes and which decodes to a width and a height of at least 10; a reference whose
  data is shorter, or decodes to a smaller width or height, is the origin of no record.
\<close>

theorem small_images_never_returned:
  assumes "open_path lib w pdf_path = Inr doc"
    and "snd (extract_images_from_pdf lib w pdf_path) = Inr imgs"
  shows "length imgs = length (sources lib doc) \<and>
         (\<forall>k < length imgs. \<exists>b img.
            doc_extract_image doc (snd (sources lib doc ! k)) = Inr b \<and>
            100 \<le> length (image_bytes b) \<and>
            Image_open lib (image_bytes b) = Inr img \<and>
            10 \<le> width img \<and> 10 \<le> height img) \<and>
         (\<forall>x b. doc_extract_image doc x = Inr b \<and>
            (length (image_bytes b) < 100 \<or>
             (\<exists>img. Image_open lib (image_bytes b) = Inr img \<and>
                (width img < 10 \<or> height img < 10))) \<longrightarrow>
            x \<notin> snd ` set (sources lib doc))"
proof -
  from extract_images_from_pdf_walk[OF assms] obtain st
    where st: "walk lib doc = Inr st" "images st = imgs" by blast
  have len: "length imgs = length (sources lib doc)"
    using walk_images[OF st(1)] st(2) by (simp add: records_from_length)
  have ok: "\<exists>b img. doc_extract_image doc x = Inr b \<and> 100 \<le> length (image_bytes b) \<and>
      Image_open lib (image_bytes b) = Inr img \<and> 10 \<le> width img \<and> 10 \<le> height img"
    if "x \<in> snd ` set (sources lib doc)" for x
  proof -
    from that obtain p where "(p, x) \<in> set (sources lib doc)" by auto
    from sources_mem[OF this] obtain u where "encode_image lib doc x = Encoded u" by blast
    from encode_image_Encoded[OF this] show ?thesis by blast
  qed
  have pos: "\<forall>k < length imgs. \<exists>b img.
      doc_extract_image doc (snd (sources lib doc ! k)) = Inr b \<and>
      100 \<le> length (image_bytes b) \<and> Image_open lib (image_bytes b) = Inr img \<and>
      10 \<le> width img \<and> 10 \<le> height img"
  proof (intro allI impI)
    fix k assume "k < length imgs"
    with len have "snd (sources lib doc ! k) \<in> snd ` set (sources lib doc)" by simp
    from ok[OF this] show "\<exists>b img.
      doc_extract_image doc (snd (sources lib doc ! k)) = Inr b \<and>
      100 \<le> length (image_bytes b) \<and> Image_open lib (image_bytes b) = Inr img \<and>
      10 \<le> width img \<and> 10 \<le> height img" .
  qed
  have neg: "\<forall>x b. doc_extract_image doc x = Inr b \<and>
      (length (image_bytes b) < 100 \<or>
       (\<exists>img. Image_open lib (image_bytes b) = Inr img \<and> (width img < 10 \<or> height img < 10))) \<longrightarrow>
      x \<notin> snd ` set (sources lib doc)"
  proof (intro allI impI notI)
    fix x b
    assume small: "doc_extract_image doc x = Inr b \<and>
      (length (image_bytes b) < 100 \<or>
       (\<exists>img. Image_open lib (image_bytes b) = Inr img \<and> (width img < 10 \<or> height img < 10)))"
      and "x \<in> snd ` set (sources lib doc)"
    from ok[OF this(2)] small show False by auto
  qed
  from len pos neg show ?thesis by blast
qed

theorem small_images_never_returned_witness:
  "open_path demo_library (stored_world 1) 0 = Inr demo_doc \<and>
   snd (extract_images_from_pdf demo_library (stored_world 1) 0) = Inr demo_records \<and>
   doc_extract_image demo_doc 7 = Inr \<lparr>image_bytes = replicate 50 1, image_ext = ''png''\<rparr> \<and>
   doc_extract_image demo_doc 9 = Inr \<lparr>image_bytes = replicate 100 2, image_ext = ''png''\<rparr> \<and>
   Image_open demo_library (replicate 100 2) = Inr icon \<and> width icon = 5 \<and>
   7 \<notin> snd ` set (sources demo_library demo_doc) \<and>
   9 \<notin> snd ` set (sources demo_library demo_doc) \<and>
   length demo_records = length (sources demo_library demo_doc)"
proof -
  note c = small_images_never_returned[OF open_stored(1) extract_demo_doc]
  have e7: "doc_extract_image demo_doc 7 = Inr \<lparr>image_bytes = replicate 50 1, image_ext = ''png''\<rparr>"
    and e9: "doc_extract_image demo_doc 9 = Inr \<lparr>image_bytes = replicate 100 2, image_ext = ''png''\<rparr>"
    by (simp_all add: demo_doc_fields demo_extract_image_def)
  have o9: "Image_open demo_library (replicate 100 2) = Inr icon" and w9: "width icon = 5"
    by (simp_all add: demo_library_def icon_def)
  note neg = c[THEN conjunct2, THEN conjunct2, rule_format]
  have "7 \<notin> snd ` set (sources demo_library demo_doc)"
    by (rule neg[of 7 "\<lparr>image_bytes = replicate 50 1, image_ext = ''png''\<rparr>"])
       (simp add: e7)
  moreover have "9 \<notin> snd ` set (sources demo_library demo_doc)"
    by (rule neg[of 9 "\<lparr>image_bytes = replicate 100 2, image_ext = ''png''\<rparr>"])
       (simp add: e9 o9 w9)
  moreover have "length demo_records = length (sources demo_library demo_doc)"
    by (rule c[THEN conjunct1])
  ultimately show ?thesis using open_stored(1) extract_demo_doc e7 e9 o9 w9 by blast
qed

lemma normalize_other_alpha:
  "has_alpha (mode im) \<Longrightarrow> mode im \<noteq> ''RGBA'' \<Longrightarrow> normalize lib im = convert lib im ''RGB''"
  by (auto simp: normalize_def has_alpha_def)











text \<open>
  C5. In a returned list the image indices are 1, 2, ... up to the length of the list,
  in list order; the list is not empty.
\<close>

theorem imageIndex_counts_from_one:
  assumes "snd (extract_images_from_pdf lib w pdf_path) = Inr imgs"
  shows "imgs \<noteq> [] \<and> map imageIndex imgs = [1..int (length imgs)]"
proof -
  from extract_images_from_pdf_success[OF assms] obtain doc st
    where st: "walk lib doc = Inr st" "images st = imgs" "imgs \<noteq> []" by blast
  from walk_images[OF st(1)] st(2)
  have "imgs = records_from lib doc 0 (sources lib doc)" by simp
  then have "map imageIndex imgs = [0 + 1..0 + int (length (sources lib doc))]"
    and "length imgs = length (sources lib doc)"
    by (simp_all only: records_from_imageIndex records_from_length)
  with st(3) show ?thesis by simp
qed

theorem imageIndex_counts_from_one_witness:
  "snd (extract_images_from_pdf demo_library (stored_world 1) 0) = Inr demo_records \<and>
   map imageIndex demo_records = [1, 2]"
proof -
  from imageIndex_counts_from_one[OF extract_demo_doc]
  have "map imageIndex demo_records = [1..int (length demo_records)]" by blast
  also have "\<dots> = [1, 2]" by (simp add: demo_records_def upto_rec1)
  finally show ?thesis using extract_demo_doc by blast
qed

text \<open>
  C6 fails on the code. \<open>broken_doc\<close> is a document that opens and whose second page
  cannot be loaded. Read from the file 0 by \<open>extract_images_from_pdf\<close>, it leaves one
  document open: \<open>close()\<close> is the last statement of the \<open>try\<close> block and the handler
  does not call it. The same happens through the endpoint with \<open>large_upload 2\<close>, an
  upload of 4097 bytes that reaches the disk before the path is opened: the request ends
  with status 500 and the temporary file is removed, but the document has not been closed.
\<close>

theorem document_left_open_on_page_error:
  "open_documents (stored_world 2) = 0 \<and>
   open_path demo_library (stored_world 2) 0 = Inr broken_doc \<and>
   doc_pages broken_doc = [Inr [5], Inl ''cannot load page''] \<and>
   snd (extract_images_from_pdf demo_library (stored_world 2) 0) =
     Inl ''Error processing PDF: cannot load page'' \<and>
   open_documents (fst (extract_images_from_pdf demo_library (stored_world 2) 0)) = 1 \<and>
   open_documents demo_world = 0 \<and>
   file_read (large_upload 2) = Inr (2 # replicate 4096 0) \<and>
   buffer_size demo_library = 4096 \<and>
   length (2 # replicate 4096 (0 :: 8 word)) = 4097 \<and>
   fitz_open demo_library (2 # replicate 4096 0) = Inr broken_doc \<and>
   snd (extract_images demo_library demo_world (large_upload 2)) =
     HTTPException 500 ''Error processing PDF: cannot load page'' \<and>
   files (fst (extract_images demo_library demo_world (large_upload 2))) 0 = None \<and>
   open_documents (fst (extract_images demo_library demo_world (large_upload 2))) = 1"
proof -
  have "open_documents (stored_world 2) = 0" "open_documents demo_world = 0"
    by (simp_all add: stored_world_def demo_world_def)
  moreover have "file_read (large_upload 2) = Inr (2 # replicate 4096 0)"
    by (simp add: large_upload_def)
  moreover have "length (2 # replicate 4096 (0 :: 8 word)) = 4097" by simp
  moreover have "snd (extract_images demo_library demo_world (large_upload 2)) =
      HTTPException 500 ''Error processing PDF: cannot load page''"
    and "files (fst (extract_images demo_library demo_world (large_upload 2))) 0 = None"
    and "open_documents (fst (extract_images demo_library demo_world (large_upload 2))) = 1"
    by (simp_all add: extract_images_large_broken)
  ultimately show ?thesis
    using open_stored(2) broken_doc_fields(1) extract_stored_broken demo_buffer
      fitz_open_large(2) by blast
qed

text \<open>
  C7. An upload whose content type is not \<open>application/pdf\<close> is answered with status
  400 and the detail \<open>File must be a PDF\<close>, and the state is the one before the request:
  no temporary file has been created and no document has been opened.
\<close>

theorem non_pdf_upload_rejected:
  assumes "content_type file \<noteq> Some ''application/pdf''"
  shows "extract_images lib w file = (w, HTTPException 400 ''File must be a PDF'')"
  using assms by (cases "content_type file") (simp_all add: extract_images_def)

theorem non_pdf_upload_rejected_witness:
  "content_type text_upload \<noteq> Some ''application/pdf'' \<and>
   extract_images demo_library demo_world text_upload =
     (demo_world, HTTPException 400 ''File must be a PDF'')"
proof -
  have h: "content_type text_upload \<noteq> Some ''application/pdf''"
    by (simp add: text_upload_def)
  from non_pdf_upload_rejected[OF h] h show ?thesis by blast
qed

text \<open>
  C8. Every record of a returned list comes from an image that was decoded, normalised
  and then saved with the format \<open>WEBP\<close>, quality 85 and method 6 (the highest method of
  Pillow's WebP encoder); its url is \<open>data:image/webp;base64,\<close> followed by the Base64
  text of the bytes the encoder returned, so that decoding what follows the 23 characters
  of the prefix gives these bytes back.
\<close>

theorem url_is_webp_data_url:
  assumes "open_path lib w pdf_path = Inr doc"
    and "snd (extract_images_from_pdf lib w pdf_path) = Inr imgs"
  shows "length imgs = length (sources lib doc) \<and>
         (\<forall>k < length imgs. \<exists>b img img' webp.
            doc_extract_image doc (snd (sources lib doc ! k)) = Inr b \<and>
            Image_open lib (image_bytes b) = Inr img \<and>
            normalize lib img = Inr img' \<and>
            save_data lib img' ''WEBP'' 85 6 = Inr webp \<and>
            url (imgs ! k) = ''data:image/webp;base64,'' @ b64encode webp \<and>
            b64decode (drop 23 (url (imgs ! k))) = Some webp)"
proof -
  from extract_images_from_pdf_walk[OF assms] obtain st
    where st: "walk lib doc = Inr st" "images st = imgs" by blast
  from walk_images[OF st(1)] st(2)
  have imgs: "imgs = records_from lib doc 0 (sources lib doc)" by simp
  then have len: "length imgs = length (sources lib doc)"
    by (simp only: records_from_length)
  have "\<exists>b img img' webp.
      doc_extract_image doc (snd (sources lib doc ! k)) = Inr b \<and>
      Image_open lib (image_bytes b) = Inr img \<and>
      normalize lib img = Inr img' \<and>
      save_data lib img' ''WEBP'' 85 6 = Inr webp \<and>
      url (imgs ! k) = ''data:image/webp;base64,'' @ b64encode webp \<and>
      b64decode (drop 23 (url (imgs ! k))) = Some webp" if k: "k < length imgs" for k
  proof -
    obtain p x where px: "sources lib doc ! k = (p, x)" by (cases "sources lib doc ! k")
    with k len have "(p, x) \<in> set (sources lib doc)" by (metis nth_mem)
    from sources_mem[OF this] obtain u where u: "encode_image lib doc x = Encoded u" by blast
    from k len have "url (imgs ! k) = url_of lib doc x"
      by (simp add: imgs records_from_nth px)
    with u have url: "url (imgs ! k) = u" by (simp add: url_of_def)
    from encode_image_Encoded[OF u] obtain b img img' webp where
      e: "doc_extract_image doc x = Inr b" "Image_open lib (image_bytes b) = Inr img"
         "normalize lib img = Inr img'" "save_data lib img' ''WEBP'' 85 6 = Inr webp"
         "u = ''data:image/webp;base64,'' @ b64encode webp" by blast
    have "b64decode (drop 23 (''data:image/webp;base64,'' @ b64encode webp)) = Some webp"
      by (simp add: b64_roundtrip)
    with e url px show ?thesis by auto
  qed
  with len show ?thesis by blast
qed

theorem url_is_webp_data_url_witness:
  "open_path demo_library (stored_world 1) 0 = Inr demo_doc \<and>
   snd (extract_images_from_pdf demo_library (stored_world 1) 0) = Inr demo_records \<and>
   url (demo_records ! 0) = ''data:image/webp;base64,CgpVBg=='' \<and>
   save_data demo_library photo ''WEBP'' 85 6 = Inr [10, 10, 85, 6] \<and>
   b64encode [10, 10, 85, 6] = ''CgpVBg=='' \<and>
   (\<exists>webp. b64decode (drop 23 (url (demo_records ! 0))) = Some webp)"
proof -
  note c = url_is_webp_data_url[OF open_stored(1) extract_demo_doc]
  have "0 < length demo_records" by (simp add: demo_records_def)
  with c have "\<exists>webp. b64decode (drop 23 (url (demo_records ! 0))) = Some webp" by blast
  moreover have "url (demo_records ! 0) = ''data:image/webp;base64,CgpVBg==''"
    by (simp add: demo_records_def)
  moreover have "save_data demo_library photo ''WEBP'' 85 6 = Inr [10, 10, 85, 6]"
    by (simp add: demo_library_def photo_def)
  moreover have "b64encode [10, 10, 85, 6] = ''CgpVBg==''"
    by (simp add: b64_char_def b64_alphabet_def)
  ultimately show ?thesis using open_stored(1) extract_demo_doc by blast
qed

text \<open>
  C9. An iteration puts its xref into \<open>seen_xrefs\<close> whatever becomes of the image. Once
  an xref is in \<open>seen_xrefs\<close>, an iteration on it changes nothing, it stays in the set
  through both loops, and no later iteration, on this page or on a later one, is the
  origin of a record for it. An xref whose image is not accepted leaves the list and the
  counter as they were and is the origin of no record of the document.
\<close>

theorem rejected_reference_is_never_retried:
  "x \<in> seen_xrefs (image_step lib doc p st x) \<and>
   (x \<in> seen_xrefs st \<longrightarrow>
      image_step lib doc q st x = st \<and>
      x \<in> seen_xrefs (images_loop lib doc q st xs) \<and>
      (\<forall>st'. pages_loop lib doc q st ps = Inr st' \<longrightarrow> x \<in> seen_xrefs st') \<and>
      x \<notin> snd ` set (images_sources lib doc q st xs) \<and>
      x \<notin> snd ` set (pages_sources lib doc q st ps)) \<and>
   ((\<forall>u. encode_image lib doc x \<noteq> Encoded u) \<longrightarrow>
      images (image_step lib doc p st x) = images st \<and>
      image_index (image_step lib doc p st x) = image_index st \<and>
      x \<notin> snd ` set (sources lib doc))"
proof (intro conjI impI allI)
  show "x \<in> seen_xrefs (image_step lib doc p st x)" by (simp add: image_step_seen)
next
  assume "x \<in> seen_xrefs st"
  then show "image_step lib doc q st x = st" by (rule image_step_in_seen)
next
  assume "x \<in> seen_xrefs st"
  then show "x \<in> seen_xrefs (images_loop lib doc q st xs)"
    using images_loop_char[of lib doc q st xs] by simp
next
  fix st' assume "x \<in> seen_xrefs st" "pages_loop lib doc q st ps = Inr st'"
  then show "x \<in> seen_xrefs st'"
    using pages_loop_char[of lib doc q st ps st'] by simp
next
  assume seen: "x \<in> seen_xrefs st"
  show "x \<notin> snd ` set (images_sources lib doc q st xs)"
  proof
    assume "x \<in> snd ` set (images_sources lib doc q st xs)"
    then obtain r where "(r, x) \<in> set (images_sources lib doc q st xs)" by auto
    from images_sources_mem[OF this] seen show False by simp
  qed
next
  assume seen: "x \<in> seen_xrefs st"
  show "x \<notin> snd ` set (pages_sources lib doc q st ps)"
  proof
    assume "x \<in> snd ` set (pages_sources lib doc q st ps)"
    then obtain r where "(r, x) \<in> set (pages_sources lib doc q st ps)" by auto
    from pages_sources_mem[OF this] seen show False by simp
  qed
next
  assume rej: "\<forall>u. encode_image lib doc x \<noteq> Encoded u"
  then have "\<not> appended st (image_step lib doc p st x)" by (simp add: appended_iff)
  from image_step_not_appended[OF this]
  show "images (image_step lib doc p st x) = images st"
    and "image_index (image_step lib doc p st x) = image_index st" by simp_all
  show "x \<notin> snd ` set (sources lib doc)"
  proof
    assume "x \<in> snd ` set (sources lib doc)"
    then obtain r where "(r, x) \<in> set (sources lib doc)" by auto
    from sources_mem[OF this] rej show False by blast
  qed
qed

theorem rejected_reference_is_never_retried_witness:
  "(\<forall>u. encode_image demo_library demo_doc 7 \<noteq> Encoded u) \<and>
   7 \<in> seen_xrefs (image_step demo_library demo_doc 0 initial_state 7) \<and>
   images (image_step demo_library demo_doc 0 initial_state 7) = [] \<and>
   7 \<notin> snd ` set (sources demo_library demo_doc) \<and>
   image_step demo_library demo_doc 1 (image_step demo_library demo_doc 0 initial_state 7) 7 =
     image_step demo_library demo_doc 0 initial_state 7 \<and>
   7 \<notin> snd ` set (pages_sources demo_library demo_doc 1
                  (image_step demo_library demo_doc 0 initial_state 7) [Inr [7, 5, 9, 11]])"
proof -
  let ?s7 = "image_step demo_library demo_doc 0 initial_state 7"
  note a = rejected_reference_is_never_retried[where x = 7 and lib = demo_library
      and doc = demo_doc and p = 0 and st = initial_state]
  note b = rejected_reference_is_never_retried[where x = 7 and lib = demo_library
      and doc = demo_doc and p = 0 and st = ?s7 and q = 1 and ps = "[Inr [7, 5, 9, 11]]"]
  have rej: "\<forall>u. encode_image demo_library demo_doc 7 \<noteq> Encoded u"
    by (simp add: demo_encode demo_doc_fields)
  from a have seen: "7 \<in> seen_xrefs ?s7" by blast
  from a rej have "images ?s7 = images initial_state" by blast
  then have "images ?s7 = []" by (simp add: initial_state_def)
  moreover from a rej have "7 \<notin> snd ` set (sources demo_library demo_doc)" by blast
  moreover from b seen have "image_step demo_library demo_doc 1 ?s7 7 = ?s7" by blast
  moreover from b seen
  have "7 \<notin> snd ` set (pages_sources demo_library demo_doc 1 ?s7 [Inr [7, 5, 9, 11]])"
    by blast
  ultimately show ?thesis using rej seen by blast
qed

text \<open>
  C10. In a returned list the page numbers never decrease from one record to the next,
  and each is at least 1 and at most the number of pages of the document.
\<close>

theorem pageNumber_sorted_and_in_range:
  assumes "open_path lib w pdf_path = Inr doc"
    and "snd (extract_images_from_pdf lib w pdf_path) = Inr imgs"
  shows "sorted (map pageNumber imgs) \<and>
         (\<forall>r \<in> set imgs. 1 \<le> pageNumber r \<and> pageNumber r \<le> int (length (doc_pages doc)))"
proof -
  from extract_images_from_pdf_walk[OF assms] obtain st
    where st: "walk lib doc = Inr st" "images st = imgs" by blast
  have pages: "map pageNumber imgs = map (\<lambda>s. int (fst s) + 1) (sources lib doc)"
    using walk_images[OF st(1)] st(2) by (simp add: records_from_pageNumber)
  have "sorted_wrt (\<lambda>a b. fst a \<le> fst b) (sources lib doc)"
    using sources_sorted[of lib doc] by (simp add: sorted_map)
  then have "sorted_wrt (\<lambda>a b. int (fst a) + 1 \<le> int (fst b) + 1) (sources lib doc)"
    by (rule sorted_wrt_mono_rel[rotated]) simp
  then have sorted: "sorted (map pageNumber imgs)"
    by (simp add: pages sorted_map)
  have range: "1 \<le> pageNumber r \<and> pageNumber r \<le> int (length (doc_pages doc))"
    if "r \<in> set imgs" for r
  proof -
    from that have "pageNumber r \<in> set (map pageNumber imgs)" by simp
    with pages obtain s where s: "s \<in> set (sources lib doc)" "pageNumber r = int (fst s) + 1"
      by auto
    obtain p x where px: "s = (p, x)" by (cases s)
    from sources_mem[of p x lib doc] s(1) px have "p < length (doc_pages doc)" by simp
    with s(2) px show ?thesis by simp
  qed
  from sorted range show ?thesis by blast
qed

theorem pageNumber_sorted_and_in_range_witness:
  "open_path demo_library (stored_world 1) 0 = Inr demo_doc \<and>
   snd (extract_images_from_pdf demo_library (stored_world 1) 0) = Inr demo_records \<and>
   map pageNumber demo_records = [1, 2] \<and> length (doc_pages demo_doc) = 3 \<and>
   sorted (map pageNumber demo_records) \<and>
   1 \<le> pageNumber (demo_records ! 1) \<and> pageNumber (demo_records ! 1) \<le> 3"
proof -
  note c = pageNumber_sorted_and_in_range[OF open_stored(1) extract_demo_doc]
  have len: "length (doc_pages demo_doc) = 3" by (simp add: demo_doc_fields)
  have mem: "demo_records ! 1 \<in> set demo_records" by (simp add: demo_records_def)
  have "map pageNumber demo_records = [1, 2]" by (simp add: demo_records_def)
  moreover from c have "sorted (map pageNumber demo_records)" by blast
  moreover from c len mem
  have "1 \<le> pageNumber (demo_records ! 1) \<and> pageNumber (demo_records ! 1) \<le> 3"
    by simp
  ultimately show ?thesis using open_stored(1) extract_demo_doc len by blast
qed

section \<open>What a request leaves behind\<close>

text \<open>
  The temporary file is removed whenever the upload could be read. A document stays open
  exactly when it was opened and a page raised. When the upload cannot be read, the
  \<open>finally\<close> block fails before it removes the file.
\<close>

lemma extract_images_from_pdf_open_documents:
  "open_documents (fst (extract_images_from_pdf lib w pdf_path)) =
     open_documents w +
       (case open_path lib w pdf_path of
          Inl e \<Rightarrow> 0
        | Inr doc \<Rightarrow> (case walk lib doc of Inl e \<Rightarrow> 1 | Inr st \<Rightarrow> 0))"
  by (auto simp: extract_images_from_pdf_def Let_def split: sum.splits)

lemma extract_images_removes_temporary_file:
  assumes "content_type file = Some ''application/pdf''"
    and "file_read file = Inr content"
  shows "files (fst (extract_images lib w file)) (next_tmp w) = None"
  using assms
  by (simp add: extract_images_def Let_def split_beta extract_images_from_pdf_files)

lemma extract_images_unreadable_upload:
  assumes "content_type file = Some ''application/pdf''"
    and "file_read file = Inl e"
  shows "snd (extract_images lib w file) = UnboundLocalError \<and>
         files (fst (extract_images lib w file)) (next_tmp w) = Some []"
  using assms by (simp add: extract_images_def Let_def)

end
